theory Spec2Isabelle
  imports Main "HOL-Library.Multiset" "HOL-Library.Word"
begin

section \<open>Data model\<close>

text \<open>
  The result-type tags used by \<^verbatim>\<open>ResultGroup.tsx\<close> (\<^verbatim>\<open>ResultType.File\<close>, ...) and the
  fields of a \<^verbatim>\<open>SearchResult\<close> that the modelled code reads. The field \<^verbatim>\<open>id\<close> is
  called \<open>rid\<close> and the field \<^verbatim>\<open>type\<close> is called \<open>rtype\<close>; \<open>score\<close> is an integer.
\<close>

datatype ResultType =
  File | Application | QuickAction | Calculator | Clipboard | Bookmark | RecentFile | WebSearch

record SearchResult =
  rid :: string
  title :: string
  subtitle :: string
  rtype :: ResultType
  score :: int

text \<open>
  A value caught by a \<^verbatim>\<open>catch\<close> clause: either an instance of \<^verbatim>\<open>Error\<close> with its
  message, or any other value (the payload is a string, as a rejected backend call gives).
\<close>

datatype js_value = ErrorObj string | NonError string

section \<open>The search hook (useSearch.ts)\<close>

text \<open>
  A query is kept as the list of its UTF-16 code units, as a JavaScript string is: what
  \<^verbatim>\<open>trim\<close> removes depends on them. \<open>utf16\<close> gives the code units of a string of
  ASCII characters. The other strings of the model are only compared and concatenated
  and are kept as \<open>string\<close>.
\<close>

type_synonym code_unit = "16 word"

definition utf16 :: "string \<Rightarrow> code_unit list" where
  "utf16 s = map of_char s"

text \<open>
  \<^verbatim>\<open>String.prototype.trim\<close> removes the white space and the line terminators of
  ECMAScript from both ends: tab, line feed, vertical tab, form feed, carriage return,
  space, no-break space, the other space separators of Unicode (U+1680, U+2000 to
  U+200A, U+202F, U+205F, U+3000), line separator, paragraph separator, and the byte
  order mark U+FEFF. Each is a single code unit.
\<close>

definition is_ws :: "code_unit \<Rightarrow> bool" where
  "is_ws c = (c \<in> set [0x0009, 0x000A, 0x000B, 0x000C, 0x000D, 0x0020, 0x00A0, 0x1680,
     0x2000, 0x2001, 0x2002, 0x2003, 0x2004, 0x2005, 0x2006, 0x2007, 0x2008, 0x2009, 0x200A,
     0x2028, 0x2029, 0x202F, 0x205F, 0x3000, 0xFEFF])"

definition trim :: "code_unit list \<Rightarrow> code_unit list" where
  "trim s = rev (dropWhile is_ws (rev (dropWhile is_ws s)))"

text \<open>
  The state of one mounted \<^verbatim>\<open>useSearch\<close> hook: the four React state cells, the two
  refs, and what the outside world sees of it.
  \<^item> \<open>controllers\<close> is the store of the \<^verbatim>\<open>AbortController\<close> objects created so far;
    entry \<open>c\<close> is the \<^verbatim>\<open>signal.aborted\<close> flag of controller \<open>c\<close>.
  \<^item> \<open>abortControllerRef\<close> is \<^verbatim>\<open>abortControllerRef.current\<close>: \<open>None\<close> for
    \<^verbatim>\<open>null\<close>, otherwise the controller it points to.
  \<^item> \<open>debounceTimer\<close> is the pending timeout set by the debounce effect, with the
    query its callback has captured; \<open>None\<close> when no timeout is pending.
  \<^item> \<open>invocations\<close> logs every \<^verbatim>\<open>invoke('search_query', {query})\<close>; the position of
    a call in the log identifies it.
  \<^item> \<open>pending\<close> lists the calls whose promise has not settled yet.
  \<^item> \<open>console\<close> is what was written with \<^verbatim>\<open>console.error\<close> and \<^verbatim>\<open>console.log\<close>.
\<close>

record search_state =
  query :: "code_unit list"
  results :: "SearchResult list"
  isLoading :: bool
  error :: "string option"
  controllers :: "bool list"
  abortControllerRef :: "nat option"
  debounceTimer :: "code_unit list option"
  invocations :: "code_unit list list"
  pending :: "nat list"
  console :: "string list"

text \<open>How an \<^verbatim>\<open>async\<close> function ends: its promise resolves, or it rejects with a message.\<close>

datatype completion = Resolved | Threw string

text \<open>
  \<^verbatim>\<open>abortControllerRef.current.signal.aborted\<close>. Reading it through a \<^verbatim>\<open>null\<close> ref is a
  \<^verbatim>\<open>TypeError\<close>, here \<open>None\<close>.
\<close>

definition signal_aborted :: "search_state \<Rightarrow> bool option" where
  "signal_aborted s =
     (case abortControllerRef s of
        None \<Rightarrow> None
      | Some c \<Rightarrow> if c < length (controllers s) then Some (controllers s ! c) else None)"

text \<open>
  \<^verbatim>\<open>performSearch\<close> up to its \<^verbatim>\<open>await\<close>: abort the controller in the ref, put a new
  controller there, return early on a blank query, otherwise set the loading state and
  call the backend.
\<close>

definition performSearch_start :: "code_unit list \<Rightarrow> search_state \<Rightarrow> search_state" where
  "performSearch_start searchQuery s =
     (let s1 = (case abortControllerRef s of
                  None \<Rightarrow> s
                | Some c \<Rightarrow> s\<lparr>controllers := (controllers s)[c := True]\<rparr>);
          s2 = s1\<lparr>controllers := controllers s1 @ [False],
                  abortControllerRef := Some (length (controllers s1))\<rparr>
      in if trim searchQuery = []
         then s2\<lparr>results := [], isLoading := False, error := None\<rparr>
         else s2\<lparr>isLoading := True, error := None,
                 invocations := invocations s2 @ [searchQuery],
                 pending := pending s2 @ [length (invocations s2)]\<rparr>)"

text \<open>
  The message taken from a caught value:
  \<^verbatim>\<open>err instanceof Error ? err.message : fallback\<close>.
\<close>

definition errorMessage :: "string \<Rightarrow> js_value \<Rightarrow> string" where
  "errorMessage fallback err = (case err of ErrorObj m \<Rightarrow> m | NonError _ \<Rightarrow> fallback)"

text \<open>
  \<^verbatim>\<open>performSearch\<close> after its \<^verbatim>\<open>await\<close>, when the backend call has settled with
  \<open>Inr searchResults\<close> or was rejected with \<open>Inl err\<close>. Each of the \<^verbatim>\<open>try\<close>,
  \<^verbatim>\<open>catch\<close> and \<^verbatim>\<open>finally\<close> blocks reads the flag of the controller that is in the
  ref at that moment. With a \<^verbatim>\<open>null\<close> ref the read throws in each block, so the
  promise rejects and no state is set.
\<close>

definition performSearch_resume ::
  "js_value + SearchResult list \<Rightarrow> search_state \<Rightarrow> search_state \<times> completion" where
  "performSearch_resume outcome s =
     (case signal_aborted s of
        None \<Rightarrow> (s, Threw ''TypeError'')
      | Some aborted \<Rightarrow>
          (let s1 = (case outcome of
                       Inr searchResults \<Rightarrow>
                         if \<not> aborted then s\<lparr>results := searchResults, error := None\<rparr> else s
                     | Inl err \<Rightarrow>
                         if \<not> aborted
                         then s\<lparr>console := console s @ [''Search error: '' @ errorMessage ''Search failed'' err],
                                error := Some (errorMessage ''Search failed'' err),
                                results := []\<rparr>
                         else s);
               s2 = (if \<not> aborted then s1\<lparr>isLoading := False\<rparr> else s1)
           in (s2, Resolved)))"

text \<open>
  What can happen to a mounted hook.
  \<^item> \<open>SetQuery t\<close>: the caller calls \<^verbatim>\<open>setQuery(t)\<close>. The debounce effect has
    \<^verbatim>\<open>[query, performSearch]\<close> as dependencies and \<^verbatim>\<open>performSearch\<close> never changes, so
    the effect runs again exactly when the query has changed: its cleanup clears the
    pending timeout and the effect sets a new one that captures the new query.
  \<^item> \<open>TimerFire\<close>: the pending timeout, if any, expires (150 ms after it was set) and
    calls \<^verbatim>\<open>performSearch\<close> with the captured query.
  \<^item> \<open>Settle i outcome\<close>: the backend call \<open>i\<close> settles and \<^verbatim>\<open>performSearch\<close> goes on
    after its \<^verbatim>\<open>await\<close>.
\<close>

datatype event = SetQuery "code_unit list" | TimerFire | Settle nat "js_value + SearchResult list"

fun step :: "event \<Rightarrow> search_state \<Rightarrow> search_state" where
  "step (SetQuery t) s =
     (if t = query s then s else s\<lparr>query := t, debounceTimer := Some t\<rparr>)"
| "step TimerFire s =
     (case debounceTimer s of
        None \<Rightarrow> s
      | Some q \<Rightarrow> performSearch_start q (s\<lparr>debounceTimer := None\<rparr>))"
| "step (Settle i outcome) s =
     (if i \<in> set (pending s)
      then fst (performSearch_resume outcome (s\<lparr>pending := removeAll i (pending s)\<rparr>))
      else s)"

fun run :: "event list \<Rightarrow> search_state \<Rightarrow> search_state" where
  "run [] s = s"
| "run (e # es) s = run es (step e s)"

text \<open>
  The hook right after mounting: the initial values of \<^verbatim>\<open>useState\<close> and \<^verbatim>\<open>useRef\<close>,
  and the timeout that the first run of the debounce effect has set for the query
  \<^verbatim>\<open>''\<close>.
\<close>

definition mounted :: search_state where
  "mounted = \<lparr>query = [], results = [], isLoading = False, error = None,
     controllers = [], abortControllerRef = None, debounceTimer = Some [],
     invocations = [], pending = [], console = []\<rparr>"

text \<open>
  The condition under which the guards of \<^verbatim>\<open>performSearch\<close> let a settled call write
  its outcome: the controller in the ref has not been aborted. It is an invariant of
  every state in which a call is pending.
\<close>

definition hook_inv :: "search_state \<Rightarrow> bool" where
  "hook_inv s = (pending s = [] \<or> signal_aborted s = Some False)"

section \<open>Grouping results for display (ResultGroup.tsx)\<close>

text \<open>
  The first loop of \<^verbatim>\<open>groupedResults\<close> fills \<^verbatim>\<open>typeMap\<close>, a \<^verbatim>\<open>Map\<close> from result type to
  the array of the results of that type: a result is pushed onto the array of its type,
  or starts a new array.
\<close>

definition typeMap_add ::
  "SearchResult \<Rightarrow> (ResultType \<rightharpoonup> SearchResult list) \<Rightarrow> (ResultType \<rightharpoonup> SearchResult list)" where
  "typeMap_add result typeMap =
     (case typeMap (rtype result) of
        Some existing \<Rightarrow> typeMap(rtype result \<mapsto> existing @ [result])
      | None \<Rightarrow> typeMap(rtype result \<mapsto> [result]))"

definition typeOrder :: "ResultType list" where
  "typeOrder =
     [RecentFile, File, Application, QuickAction, Calculator, Bookmark, Clipboard, WebSearch]"

fun getGroupTitle :: "ResultType \<Rightarrow> string" where
  "getGroupTitle File = ''FILES''"
| "getGroupTitle Application = ''APPLICATIONS''"
| "getGroupTitle QuickAction = ''QUICK ACTIONS''"
| "getGroupTitle Calculator = ''CALCULATOR''"
| "getGroupTitle Clipboard = ''CLIPBOARD''"
| "getGroupTitle Bookmark = ''BOOKMARKS''"
| "getGroupTitle RecentFile = ''RECENT FILES''"
| "getGroupTitle WebSearch = ''WEB SEARCH''"

text \<open>
  A group as \<^verbatim>\<open>groupedResults\<close> builds it; its fields \<^verbatim>\<open>type\<close>, \<^verbatim>\<open>title\<close> and
  \<^verbatim>\<open>results\<close> are called \<open>gtype\<close>, \<open>gtitle\<close> and \<open>gresults\<close>.
\<close>

record GroupedResults =
  gtype :: ResultType
  gtitle :: string
  gresults :: "SearchResult list"
  startIndex :: nat

text \<open>
  The second loop goes through \<open>typeOrder\<close> and pushes a group for every type that has
  results, carrying \<^verbatim>\<open>groups\<close> and \<^verbatim>\<open>currentIndex\<close> along.
\<close>

definition push_group ::
  "(ResultType \<rightharpoonup> SearchResult list) \<Rightarrow> ResultType \<Rightarrow> GroupedResults list \<times> nat
   \<Rightarrow> GroupedResults list \<times> nat" where
  "push_group typeMap t acc =
     (case acc of (groups, currentIndex) \<Rightarrow>
        (case typeMap t of
           Some typeResults \<Rightarrow>
             if length typeResults > 0
             then (groups @ [\<lparr>gtype = t, gtitle = getGroupTitle t, gresults = typeResults,
                               startIndex = currentIndex\<rparr>],
                   currentIndex + length typeResults)
             else (groups, currentIndex)
         | None \<Rightarrow> (groups, currentIndex)))"

definition groupedResults :: "SearchResult list \<Rightarrow> GroupedResults list" where
  "groupedResults rs =
     fst (fold (push_group (fold typeMap_add rs Map.empty)) typeOrder ([], 0))"

text \<open>The results in the order of display: the groups one after the other.\<close>

definition displayed :: "SearchResult list \<Rightarrow> SearchResult list" where
  "displayed rs = concat (map gresults (groupedResults rs))"

text \<open>The results of one type, in the order of the list they are taken from.\<close>

definition of_type :: "ResultType \<Rightarrow> SearchResult list \<Rightarrow> SearchResult list" where
  "of_type t rs = filter (\<lambda>r. rtype r = t) rs"

section \<open>Keyboard selection (useKeyboard.ts)\<close>

text \<open>
  The state of \<^verbatim>\<open>useKeyboardSelection\<close> is the number \<^verbatim>\<open>selectedIndex\<close>. The three
  callbacks are given as the functions they pass to \<^verbatim>\<open>setSelectedIndex\<close>.
\<close>

definition moveUp :: "int \<Rightarrow> int \<Rightarrow> int" where
  "moveUp itemCount prev =
     (if itemCount = 0 then 0 else if prev \<le> 0 then itemCount - 1 else prev - 1)"

definition moveDown :: "int \<Rightarrow> int \<Rightarrow> int" where
  "moveDown itemCount prev =
     (if itemCount = 0 then 0 else if prev \<ge> itemCount - 1 then 0 else prev + 1)"

definition resetSelection :: "int \<Rightarrow> int" where
  "resetSelection prev = 0"

text \<open>
  The effect that runs after a render in which \<^verbatim>\<open>itemCount\<close> or \<^verbatim>\<open>selectedIndex\<close>
  has changed.
\<close>

definition selection_effect :: "int \<Rightarrow> int \<Rightarrow> int" where
  "selection_effect itemCount selectedIndex =
     (if itemCount = 0 then 0
      else if selectedIndex \<ge> itemCount then max 0 (itemCount - 1)
      else selectedIndex)"

text \<open>
  A call of one of the callbacks, followed by the effect of the render it causes; a
  sequence of calls; and the index after mounting the hook with an initial index.
\<close>

datatype selection_call = MoveUp | MoveDown | ResetSelection

fun call :: "int \<Rightarrow> selection_call \<Rightarrow> int \<Rightarrow> int" where
  "call itemCount MoveUp selectedIndex =
     selection_effect itemCount (moveUp itemCount selectedIndex)"
| "call itemCount MoveDown selectedIndex =
     selection_effect itemCount (moveDown itemCount selectedIndex)"
| "call itemCount ResetSelection selectedIndex =
     selection_effect itemCount (resetSelection selectedIndex)"

fun calls :: "int \<Rightarrow> selection_call list \<Rightarrow> int \<Rightarrow> int" where
  "calls itemCount [] selectedIndex = selectedIndex"
| "calls itemCount (c # cs) selectedIndex = calls itemCount cs (call itemCount c selectedIndex)"

definition useKeyboardSelection :: "int \<Rightarrow> int \<Rightarrow> int" where
  "useKeyboardSelection itemCount initialIndex = selection_effect itemCount initialIndex"

section \<open>Highlighting matched characters (highlight.tsx)\<close>

text \<open>
  What the highlighting functions return, as far as its text goes: \<^verbatim>\<open>null\<close>, a plain
  string, or a fragment of \<^verbatim>\<open>span\<close> elements, each either plain or carrying the
  highlight classes. A Fuzzysort result is given by the two fields the code reads.
\<close>

datatype span = Plain string | Highlight string

datatype react_node = Null | Text string | Fragment "span list"

record fuzzy_result =
  target :: string
  indexes :: "nat list"

text \<open>
  \<^verbatim>\<open>text.substring(a, b)\<close>: both arguments are clamped to the length of the text and
  swapped when the first is the larger. \<^verbatim>\<open>text[i]\<close> beyond the end is \<^verbatim>\<open>undefined\<close>,
  which renders as no text.
\<close>

definition substring :: "string \<Rightarrow> nat \<Rightarrow> nat \<Rightarrow> string" where
  "substring text a b =
     (let a' = min a (length text); b' = min b (length text)
      in take (max a' b' - min a' b') (drop (min a' b') text))"

definition char_at :: "string \<Rightarrow> nat \<Rightarrow> string" where
  "char_at text i = (if i < length text then [text ! i] else [])"

text \<open>
  One round of the \<^verbatim>\<open>forEach\<close> over the indexes, on the pair of \<^verbatim>\<open>elements\<close> and
  \<^verbatim>\<open>lastIndex\<close>.
\<close>

definition highlight_step :: "string \<Rightarrow> nat \<Rightarrow> span list \<times> nat \<Rightarrow> span list \<times> nat" where
  "highlight_step text index acc =
     (case acc of (elements, lastIndex) \<Rightarrow>
        (let elements1 = (if index > lastIndex
                          then elements @ [Plain (substring text lastIndex index)]
                          else elements)
         in (elements1 @ [Highlight (char_at text index)], index + 1)))"

definition highlightMatches :: "fuzzy_result option \<Rightarrow> react_node" where
  "highlightMatches result =
     (case result of
        None \<Rightarrow> Null
      | Some r \<Rightarrow>
          if target r = [] then Null
          else if indexes r = [] then Text (target r)
          else (case fold (highlight_step (target r)) (indexes r) ([], 0) of
                  (elements, lastIndex) \<Rightarrow>
                    Fragment (if lastIndex < length (target r)
                              then elements @ [Plain (substring (target r) lastIndex (length (target r)))]
                              else elements)))"

text \<open>
  \<^verbatim>\<open>highlightText\<close>, with \<^verbatim>\<open>Fuzzysort.single\<close> as the parameter \<open>single\<close>: the library
  is not part of the repository.
\<close>

definition highlightText ::
  "(string \<Rightarrow> string \<Rightarrow> fuzzy_result option) \<Rightarrow> string \<Rightarrow> string \<Rightarrow> react_node" where
  "highlightText single text qry =
     (if qry = [] \<or> text = [] then Text text
      else highlightMatches (single qry text))"

text \<open>
  The text a node shows, and for each character of that text whether it stands in a
  highlighted span.
\<close>

fun span_text :: "span \<Rightarrow> string" where
  "span_text (Plain s) = s"
| "span_text (Highlight s) = s"

fun span_marks :: "span \<Rightarrow> bool list" where
  "span_marks (Plain s) = replicate (length s) False"
| "span_marks (Highlight s) = replicate (length s) True"

fun text_content :: "react_node \<Rightarrow> string" where
  "text_content Null = []"
| "text_content (Text s) = s"
| "text_content (Fragment spans) = concat (map span_text spans)"

fun highlight_marks :: "react_node \<Rightarrow> bool list" where
  "highlight_marks Null = []"
| "highlight_marks (Text s) = replicate (length s) False"
| "highlight_marks (Fragment spans) = concat (map span_marks spans)"

text \<open>
  The indexes of a match: strictly ascending positions of the target.
\<close>

definition valid_match :: "fuzzy_result \<Rightarrow> bool" where
  "valid_match r = (sorted_wrt (<) (indexes r) \<and> list_all (\<lambda>i. i < length (target r)) (indexes r))"

section \<open>Executing a result (useSearch.ts, SearchBar)\<close>

text \<open>
  \<^verbatim>\<open>executeResult\<close>, given how the backend call \<^verbatim>\<open>invoke('execute_result', {result})\<close>
  settles and the console so far. It returns how its promise settles, \<open>Inl m\<close> for a
  rejection with \<^verbatim>\<open>new Error(m)\<close>, and the console.
\<close>

definition executeResult ::
  "js_value + unit \<Rightarrow> SearchResult \<Rightarrow> string list \<Rightarrow> (string + unit) \<times> string list" where
  "executeResult outcome result con =
     (case outcome of
        Inr _ \<Rightarrow> (Inr (), con @ [''Result executed successfully: '' @ title result])
      | Inl err \<Rightarrow>
          (Inl (errorMessage ''Failed to execute result'' err),
           con @ [''Execute error: '' @ errorMessage ''Failed to execute result'' err]))"

text \<open>
  The state of the \<^verbatim>\<open>SearchBar\<close> component: the search hook it uses, the selected
  index, the flag of the closing animation, and whether \<^verbatim>\<open>handleClose\<close> has scheduled
  the call of \<^verbatim>\<open>onClose\<close> that hides the window.
\<close>

record searchbar_state =
  hook :: search_state
  selectedIndex :: int
  isAnimatingOut :: bool
  closeScheduled :: bool

text \<open>
  \<^verbatim>\<open>handleClose\<close> starts the closing animation and schedules the call of
  \<^verbatim>\<open>onClose\<close>.
\<close>

definition handleClose :: "searchbar_state \<Rightarrow> searchbar_state" where
  "handleClose s = s\<lparr>isAnimatingOut := True, closeScheduled := True\<rparr>"

text \<open>
  The text of an \<^verbatim>\<open>Error\<close> object with the given message, as
  \<^verbatim>\<open>Error.prototype.toString\<close> gives it and \<^verbatim>\<open>console.error\<close> writes it (without
  the stack trace): the name alone when the message is empty.
\<close>

definition error_toString :: "string \<Rightarrow> string" where
  "error_toString m = (if m = [] then ''Error'' else ''Error: '' @ m)"

text \<open>
  \<^verbatim>\<open>handleExecuteResult\<close>, given how the backend call made by \<^verbatim>\<open>executeResult\<close>
  settles: with a valid selection it executes \<^verbatim>\<open>results[selectedIndex]\<close>, closes on
  success, and on failure passes the caught \<^verbatim>\<open>Error\<close> to \<^verbatim>\<open>console.error\<close>.
\<close>

definition handleExecuteResult :: "js_value + unit \<Rightarrow> searchbar_state \<Rightarrow> searchbar_state" where
  "handleExecuteResult outcome s =
     (if length (results (hook s)) > 0 \<and> selectedIndex s \<ge> 0 \<and>
         selectedIndex s < int (length (results (hook s)))
      then (let selectedResult = results (hook s) ! nat (selectedIndex s)
            in case executeResult outcome selectedResult (console (hook s)) of
                 (Inr _, con) \<Rightarrow> handleClose (s\<lparr>hook := (hook s)\<lparr>console := con\<rparr>\<rparr>)
               | (Inl m, con) \<Rightarrow>
                   s\<lparr>hook := (hook s)\<lparr>console :=
                        con @ [''Failed to execute result: '' @ error_toString m]\<rparr>\<rparr>)
      else s)"

text \<open>
  What the component shows: everything its render reads, namely the animation flag, the
  query, the loading flag, the result list and the selected index, and whether the
  window is about to be hidden. The console is not part of it.
\<close>

definition rendered ::
  "searchbar_state \<Rightarrow> bool \<times> code_unit list \<times> bool \<times> SearchResult list \<times> int \<times> bool" where
  "rendered s =
     (isAnimatingOut s, query (hook s), isLoading (hook s), results (hook s), selectedIndex s,
      closeScheduled s)"

section \<open>Merging the providers' results (query orchestrator)\<close>

text \<open>
  Modelled from the spec: the provider registration as the merge of the query
  orchestrator sees it (the orchestrator is part of the backend and not among the
  source files): the provider's name, its priority, and the result list its search
  has returned for the query (\<open>found\<close>).
\<close>

record provider =
  pname :: string
  priority :: nat
  found :: "SearchResult list"

text \<open>
  Modelled from the spec: the order in which the merge takes the providers (section
  4.3, step 6, of the query orchestrator, which is not among the source files):
  descending priority, by a stable sort, so that providers of equal priority keep the
  order of the provider list.
\<close>

definition rank_providers :: "provider list \<Rightarrow> provider list" where
  "rank_providers ps = sort_key (\<lambda>p. - int (priority p)) ps"

text \<open>
  Modelled from the spec: the order of one provider's results in the merge (section
  4.3, step 6, of the query orchestrator, which is not among the source files):
  descending score, by a stable sort, so that results of equal score keep the order in
  which the provider returned them.
\<close>

definition rank_results :: "SearchResult list \<Rightarrow> SearchResult list" where
  "rank_results rs = sort_key (\<lambda>r. - score r) rs"

text \<open>
  Modelled from the spec: the merge of the query orchestrator (section 4.3, step 6,
  not among the source files): the concatenation of the providers' ranked result
  lists, in the order of the ranked providers. With every result goes the provider it
  comes from (section 4.4: the attribution is carried alongside).
\<close>

definition merge_tagged :: "provider list \<Rightarrow> (provider \<times> SearchResult) list" where
  "merge_tagged ps =
     concat (map (\<lambda>p. map (Pair p) (rank_results (found p))) (rank_providers ps))"

text \<open>
  Modelled from the spec: the merged output of the query orchestrator (not among the
  source files), the results of \<open>merge_tagged\<close> without their providers.
\<close>

definition merge_results :: "provider list \<Rightarrow> SearchResult list" where
  "merge_results ps = map snd (merge_tagged ps)"

text \<open>
  Modelled from the spec: the composite key of the merge (section 4.3, step 6, of the
  query orchestrator, which is not among the source files) as an order on tagged
  results: the first does not come from a provider of lower priority than the second,
  and when both come from the same provider the first does not have the lower score.
\<close>

definition ranked_before :: "provider \<times> SearchResult \<Rightarrow> provider \<times> SearchResult \<Rightarrow> bool" where
  "ranked_before a b =
     (priority (fst a) \<ge> priority (fst b) \<and>
      (fst a \<noteq> fst b \<or> score (snd a) \<ge> score (snd b)))"

section \<open>Example data\<close>

definition result_a :: SearchResult where
  "result_a = \<lparr>rid = ''file-1'', title = ''a.txt'', subtitle = ''C:/docs'', rtype = File, score = 80\<rparr>"

definition result_calc :: SearchResult where
  "result_calc = \<lparr>rid = ''calc-1'', title = ''4'', subtitle = ''2+2'', rtype = Calculator, score = 100\<rparr>"

definition result_file :: SearchResult where
  "result_file = \<lparr>rid = ''file-2'', title = ''2+2.txt'', subtitle = ''C:/docs'', rtype = File, score = 70\<rparr>"

definition result_ab :: SearchResult where
  "result_ab = \<lparr>rid = ''file-1'', title = ''ab.txt'', subtitle = ''C:/docs'', rtype = File, score = 90\<rparr>"

definition searchbar_with_file :: searchbar_state where
  "searchbar_with_file =
     \<lparr>hook = mounted\<lparr>query := utf16 ''a'', results := [result_a],
                     invocations := [utf16 ''a'']\<rparr>,
      selectedIndex = 0, isAnimatingOut = False, closeScheduled = False\<rparr>"

definition result_web :: SearchResult where
  "result_web = \<lparr>rid = ''web-1'', title = ''search the web'', subtitle = ''2+2'', rtype = WebSearch, score = 1\<rparr>"

definition calculator_provider :: provider where
  "calculator_provider = \<lparr>pname = ''Calculator'', priority = 90, found = [result_calc]\<rparr>"

definition websearch_provider :: provider where
  "websearch_provider = \<lparr>pname = ''WebSearch'', priority = 1, found = [result_web]\<rparr>"

definition files_provider :: provider where
  "files_provider = \<lparr>pname = ''Files'', priority = 85, found = [result_file, result_a]\<rparr>"

section \<open>Properties of the search hook\<close>

lemma signal_aborted_start: "signal_aborted (performSearch_start q s) = Some False"
  by (simp add: performSearch_start_def signal_aborted_def Let_def split: option.split)

lemma signal_aborted_resume:
  "signal_aborted (fst (performSearch_resume outcome s)) = signal_aborted s"
  by (simp add: performSearch_resume_def signal_aborted_def Let_def split: option.split sum.split)

lemma signal_aborted_pending_update [simp]:
  "signal_aborted (s\<lparr>pending := p\<rparr>) = signal_aborted s"
  by (simp add: signal_aborted_def split: option.split)

lemma signal_aborted_query_update [simp]:
  "signal_aborted (s\<lparr>query := t, debounceTimer := d\<rparr>) = signal_aborted s"
  by (simp add: signal_aborted_def split: option.split)

lemma hook_inv_step: "hook_inv s \<Longrightarrow> hook_inv (step e s)"
proof (cases e)
  case (SetQuery t)
  assume "hook_inv s"
  then show ?thesis using SetQuery by (simp add: hook_inv_def)
next
  case TimerFire
  assume "hook_inv s"
  then show ?thesis using TimerFire
    by (simp add: hook_inv_def signal_aborted_start split: option.split)
next
  case (Settle i outcome)
  assume h: "hook_inv s"
  show ?thesis
  proof (cases "i \<in> set (pending s)")
    case True
    then have "pending s \<noteq> []" by auto
    with h have "signal_aborted s = Some False" by (simp add: hook_inv_def)
    then show ?thesis using Settle True
      by (simp add: hook_inv_def signal_aborted_resume)
  next
    case False
    then show ?thesis using Settle h by simp
  qed
qed

lemma hook_inv_run: "hook_inv s \<Longrightarrow> hook_inv (run es s)"
  by (induction es arbitrary: s) (simp_all add: hook_inv_step)

lemma hook_inv_mounted: "hook_inv mounted"
  by (simp add: hook_inv_def mounted_def)

text \<open>
  Whenever a backend call is pending, the controller in the ref is the one created by
  the latest \<^verbatim>\<open>performSearch\<close>, and nothing has aborted it: a controller is aborted only
  at the moment it is replaced in the ref.
\<close>

lemma reachable_pending_not_aborted:
  "i \<in> set (pending (run es mounted)) \<Longrightarrow> signal_aborted (run es mounted) = Some False"
  using hook_inv_run [OF hook_inv_mounted, of es] by (auto simp: hook_inv_def)

lemma resume_not_aborted_reject:
  "signal_aborted s = Some False \<Longrightarrow>
   performSearch_resume (Inl err) s =
     (s\<lparr>console := console s @ [''Search error: '' @ errorMessage ''Search failed'' err],
        error := Some (errorMessage ''Search failed'' err), results := [], isLoading := False\<rparr>,
      Resolved)"
  by (simp add: performSearch_resume_def)

lemma resume_not_aborted_resolve:
  "signal_aborted s = Some False \<Longrightarrow>
   performSearch_resume (Inr rs) s =
     (s\<lparr>results := rs, error := None, isLoading := False\<rparr>, Resolved)"
  by (simp add: performSearch_resume_def)

lemma invocations_start:
  "invocations (performSearch_start q s) =
     (if trim q = [] then invocations s else invocations s @ [q])"
  by (simp add: performSearch_start_def Let_def split: option.split)

lemma debounceTimer_start: "debounceTimer (performSearch_start q s) = debounceTimer s"
  by (simp add: performSearch_start_def Let_def split: option.split)

text \<open>
  C1. Query \<^verbatim>\<open>a\<close> is dispatched, then query \<^verbatim>\<open>ab\<close> while the call for \<^verbatim>\<open>a\<close> is still
  pending. The call for \<^verbatim>\<open>ab\<close> resolves first and its list is shown; when the older
  call for \<^verbatim>\<open>a\<close> resolves afterwards, its list replaces the newer one, although the
  query is still \<^verbatim>\<open>ab\<close>. The older call also shows its list when it resolves first,
  while the newer call is pending.
\<close>

theorem stale_search_overwrites_newer:
  "query (run [SetQuery (utf16 ''a''), TimerFire, SetQuery (utf16 ''ab''), TimerFire,
               Settle 1 (Inr [result_ab]), Settle 0 (Inr [result_a])] mounted) = utf16 ''ab'' \<and>
   results (run [SetQuery (utf16 ''a''), TimerFire, SetQuery (utf16 ''ab''), TimerFire,
                 Settle 1 (Inr [result_ab])] mounted) = [result_ab] \<and>
   results (run [SetQuery (utf16 ''a''), TimerFire, SetQuery (utf16 ''ab''), TimerFire,
                 Settle 1 (Inr [result_ab]), Settle 0 (Inr [result_a])] mounted) = [result_a] \<and>
   results (run [SetQuery (utf16 ''a''), TimerFire, SetQuery (utf16 ''ab''), TimerFire,
                 Settle 0 (Inr [result_a])] mounted) = [result_a] \<and>
   pending (run [SetQuery (utf16 ''a''), TimerFire, SetQuery (utf16 ''ab''), TimerFire,
                 Settle 0 (Inr [result_a])] mounted) = [1] \<and>
   result_a \<noteq> result_ab"
  by (simp add: mounted_def performSearch_start_def performSearch_resume_def
      signal_aborted_def trim_def is_ws_def utf16_def result_a_def result_ab_def)

text \<open>
  C2. For a blank query (here the empty query of a freshly mounted hook, a query of
  two spaces, a query cleared after a search, and a query of a no-break space and an
  ideographic space) \<^verbatim>\<open>performSearch\<close> sets the result
  list to the empty list and calls no backend command at all: no call is logged and
  none is pending, so no provider's results, the Recent-Files provider's included, can
  reach the caller.
\<close>

theorem blank_query_calls_no_backend:
  "results (run [TimerFire] mounted) = [] \<and>
   invocations (run [TimerFire] mounted) = [] \<and>
   pending (run [TimerFire] mounted) = [] \<and>
   results (run [SetQuery (utf16 ''  ''), TimerFire] mounted) = [] \<and>
   invocations (run [SetQuery (utf16 ''  ''), TimerFire] mounted) = [] \<and>
   pending (run [SetQuery (utf16 ''  ''), TimerFire] mounted) = [] \<and>
   results (run [SetQuery (utf16 ''a''), TimerFire, Settle 0 (Inr [result_a])] mounted) = [result_a] \<and>
   results (run [SetQuery (utf16 ''a''), TimerFire, Settle 0 (Inr [result_a]),
                 SetQuery [], TimerFire] mounted) = [] \<and>
   invocations (run [SetQuery (utf16 ''a''), TimerFire, Settle 0 (Inr [result_a]),
                     SetQuery [], TimerFire] mounted) = [utf16 ''a''] \<and>
   results (run [SetQuery [0x00A0, 0x3000], TimerFire] mounted) = [] \<and>
   invocations (run [SetQuery [0x00A0, 0x3000], TimerFire] mounted) = []"
  by (simp add: mounted_def performSearch_start_def performSearch_resume_def
      signal_aborted_def trim_def is_ws_def utf16_def)

text \<open>
  C6. \<^verbatim>\<open>performSearch\<close> never throws to its caller. In every state the hook can reach
  with a backend call pending, the promise of \<^verbatim>\<open>performSearch\<close> resolves whatever the
  outcome of the call; and when the call is rejected, the result list becomes the
  empty list, the error message is recorded and the loading flag is cleared.
\<close>

theorem performSearch_never_throws:
  assumes "i \<in> set (pending (run es mounted))"
  shows "snd (performSearch_resume outcome (run es mounted)) = Resolved \<and>
         results (step (Settle i (Inl err)) (run es mounted)) = [] \<and>
         error (step (Settle i (Inl err)) (run es mounted)) =
           Some (errorMessage ''Search failed'' err) \<and>
         \<not> isLoading (step (Settle i (Inl err)) (run es mounted))"
proof -
  let ?s = "run es mounted"
  have a: "signal_aborted ?s = Some False"
    using assms by (rule reachable_pending_not_aborted)
  then have b: "signal_aborted (?s\<lparr>pending := removeAll i (pending ?s)\<rparr>) = Some False"
    by simp
  have "snd (performSearch_resume outcome ?s) = Resolved"
    using a by (cases outcome) (simp_all add: resume_not_aborted_reject resume_not_aborted_resolve)
  then show ?thesis
    using assms by (simp add: resume_not_aborted_reject [OF b])
qed

theorem performSearch_never_throws_witness:
  "0 \<in> set (pending (run [SetQuery (utf16 ''doc''), TimerFire] mounted)) \<and>
   snd (performSearch_resume (Inl (NonError ''backend down''))
          (run [SetQuery (utf16 ''doc''), TimerFire] mounted)) = Resolved \<and>
   results (step (Settle 0 (Inl (NonError ''backend down'')))
              (run [SetQuery (utf16 ''doc''), TimerFire] mounted)) = [] \<and>
   error (step (Settle 0 (Inl (NonError ''backend down'')))
            (run [SetQuery (utf16 ''doc''), TimerFire] mounted)) = Some ''Search failed'' \<and>
   \<not> isLoading (step (Settle 0 (Inl (NonError ''backend down'')))
                  (run [SetQuery (utf16 ''doc''), TimerFire] mounted))"
proof -
  have h: "0 \<in> set (pending (run [SetQuery (utf16 ''doc''), TimerFire] mounted))"
    by (simp add: mounted_def performSearch_start_def trim_def is_ws_def utf16_def)
  show ?thesis
    using h performSearch_never_throws [OF h, of "Inl (NonError ''backend down'')"
        "NonError ''backend down''"]
    by (simp add: errorMessage_def)
qed

text \<open>
  C7. A second \<^verbatim>\<open>setQuery\<close> with the same text, arriving before the debounce timeout
  expires, changes nothing: whatever happens afterwards, the hook behaves as if the
  query had been set once, so both calls see the same result list. When the timeout
  expires, at most one \<^verbatim>\<open>search_query\<close> call has been added, exactly one (for that
  text) when the text is a new, non-blank query, and no later expiry adds another.
\<close>

theorem duplicate_setQuery_single_invocation:
  "run (SetQuery t # SetQuery t # es) s = run (SetQuery t # es) s \<and>
   length (invocations (run [SetQuery t, SetQuery t, TimerFire] s)) \<le> length (invocations s) + 1 \<and>
   (t \<noteq> query s \<and> trim t \<noteq> [] \<longrightarrow>
      invocations (run [SetQuery t, SetQuery t, TimerFire] s) = invocations s @ [t]) \<and>
   run [SetQuery t, SetQuery t, TimerFire, TimerFire] s = run [SetQuery t, SetQuery t, TimerFire] s"
  by (simp add: invocations_start debounceTimer_start split: option.split)

theorem duplicate_setQuery_single_invocation_witness:
  "utf16 ''doc'' \<noteq> query mounted \<and> trim (utf16 ''doc'') \<noteq> [] \<and>
   invocations (run [SetQuery (utf16 ''doc''), SetQuery (utf16 ''doc''), TimerFire] mounted) =
     [utf16 ''doc''] \<and>
   trim [0x00A0] = [] \<and>
   invocations (run [SetQuery [0x00A0], SetQuery [0x00A0], TimerFire] mounted) = []"
  using duplicate_setQuery_single_invocation [of "utf16 ''doc''" "[]" mounted]
  by (simp add: mounted_def performSearch_start_def trim_def is_ws_def utf16_def)

section \<open>Properties of the grouping\<close>

lemma typeMap_fold:
  "fold typeMap_add rs m t =
     (case m t of
        None \<Rightarrow> if of_type t rs = [] then None else Some (of_type t rs)
      | Some xs \<Rightarrow> Some (xs @ of_type t rs))"
  by (induction rs arbitrary: m) (auto simp: typeMap_add_def of_type_def split: option.split)

lemma typeMap_of:
  "fold typeMap_add rs Map.empty t = (if of_type t rs = [] then None else Some (of_type t rs))"
  by (simp add: typeMap_fold)

lemma push_group_fold:
  "map gresults (fst (fold (push_group m) ts (gs, n))) =
     map gresults gs @
     filter (\<lambda>l. l \<noteq> []) (map (\<lambda>t. case m t of None \<Rightarrow> [] | Some l \<Rightarrow> l) ts)"
  by (induction ts arbitrary: gs n) (auto simp: push_group_def split: option.split)

lemma concat_filter_nonempty: "concat (filter (\<lambda>l. l \<noteq> []) ls) = concat ls"
  by (induction ls) auto

lemma typeMap_lookup:
  "(\<lambda>t. case fold typeMap_add rs Map.empty t of None \<Rightarrow> [] | Some l \<Rightarrow> l) = (\<lambda>t. of_type t rs)"
  by (rule ext) (simp add: typeMap_of)

lemma groups_eq:
  "map gresults (groupedResults rs) =
     filter (\<lambda>l. l \<noteq> []) (map (\<lambda>t. of_type t rs) typeOrder)"
  by (simp add: groupedResults_def push_group_fold typeMap_lookup)

lemma displayed_eq: "displayed rs = concat (map (\<lambda>t. of_type t rs) typeOrder)"
  by (simp add: displayed_def groups_eq concat_filter_nonempty)

lemma mset_displayed: "mset (displayed rs) = mset rs"
proof (induction rs)
  case Nil
  show ?case by (simp add: displayed_eq typeOrder_def of_type_def)
next
  case (Cons r rs)
  then show ?case
    by (cases "rtype r") (simp_all add: displayed_eq typeOrder_def of_type_def)
qed

lemma of_type_displayed: "of_type t (displayed rs) = of_type t rs"
  by (cases t) (auto simp: displayed_eq typeOrder_def of_type_def)

text \<open>
  C4, as stated, fails: a calculator result ranked before a file result is displayed
  after it, because the FILES group comes before the CALCULATOR group whatever the
  order of the list.
\<close>

theorem grouping_reorders_across_groups:
  "displayed [result_calc, result_file] = [result_file, result_calc] \<and>
   displayed [result_calc, result_file] \<noteq> [result_calc, result_file]"
  by (simp add: displayed_def groupedResults_def push_group_def typeMap_add_def typeOrder_def
      result_calc_def result_file_def)

text \<open>
  C4, amended. Grouping keeps the order of the list within each group: the results of a
  type are displayed in the order they have in the list. The groups are the non-empty
  ones among the eight types, always in the order of \<open>typeOrder\<close>, and the displayed
  results are the results of the list, each exactly once.
\<close>

theorem grouping_keeps_order_within_groups:
  "of_type t (displayed rs) = of_type t rs \<and>
   map gresults (groupedResults rs) =
     filter (\<lambda>l. l \<noteq> []) (map (\<lambda>t. of_type t rs) typeOrder) \<and>
   displayed rs = concat (map (\<lambda>t. of_type t rs) typeOrder) \<and>
   mset (displayed rs) = mset rs"
  by (simp add: of_type_displayed groups_eq displayed_eq [symmetric] mset_displayed)

section \<open>The result list is replaced as a whole\<close>






section \<open>Properties of the keyboard selection\<close>

lemma call_in_range:
  "1 \<le> n \<Longrightarrow> 0 \<le> i \<Longrightarrow> i < n \<Longrightarrow> 0 \<le> call n c i \<and> call n c i < n"
  by (cases c) (auto simp: moveUp_def moveDown_def resetSelection_def selection_effect_def)

lemma calls_in_range:
  "1 \<le> n \<Longrightarrow> 0 \<le> i \<Longrightarrow> i < n \<Longrightarrow> 0 \<le> calls n cs i \<and> calls n cs i < n"
proof (induction cs arbitrary: i)
  case Nil
  then show ?case by simp
next
  case (Cons c cs)
  then show ?case using call_in_range [of n i c] by simp
qed

lemma mount_in_range:
  "1 \<le> n \<Longrightarrow> 0 \<le> i0 \<Longrightarrow> 0 \<le> useKeyboardSelection n i0 \<and> useKeyboardSelection n i0 < n"
  by (auto simp: useKeyboardSelection_def selection_effect_def)

lemma call_zero: "call 0 c i = 0"
  by (cases c) (simp_all add: moveUp_def moveDown_def resetSelection_def selection_effect_def)

lemma calls_zero: "cs \<noteq> [] \<Longrightarrow> calls 0 cs i = 0"
proof (induction cs arbitrary: i)
  case Nil
  then show ?case by simp
next
  case (Cons c cs)
  then show ?case by (cases cs) (simp_all add: call_zero)
qed

text \<open>
  C9. With at least one item and the selected index within \<open>0 .. itemCount - 1\<close>, any
  sequence of \<^verbatim>\<open>moveUp\<close>, \<^verbatim>\<open>moveDown\<close> and \<^verbatim>\<open>resetSelection\<close> calls leaves it there;
  this holds from the index the hook has after mounting with any initial index that is
  not negative, the default \<open>0\<close> included. \<^verbatim>\<open>moveDown\<close> at the last index gives \<open>0\<close>,
  \<^verbatim>\<open>moveUp\<close> at \<open>0\<close> gives the last index. With no items every call gives \<open>0\<close>.
\<close>

theorem selection_stays_in_range:
  "(1 \<le> n \<and> 0 \<le> i \<and> i < n \<longrightarrow>
      0 \<le> calls n cs i \<and> calls n cs i < n \<and>
      0 \<le> moveUp n i \<and> moveUp n i < n \<and> 0 \<le> moveDown n i \<and> moveDown n i < n) \<and>
   (1 \<le> n \<and> 0 \<le> i0 \<longrightarrow>
      0 \<le> calls n cs (useKeyboardSelection n i0) \<and>
      calls n cs (useKeyboardSelection n i0) < n) \<and>
   (1 \<le> n \<longrightarrow> moveDown n (n - 1) = 0 \<and> moveUp n 0 = n - 1) \<and>
   moveUp 0 i = 0 \<and> moveDown 0 i = 0 \<and> resetSelection i = 0 \<and> call 0 c i = 0 \<and>
   (cs \<noteq> [] \<longrightarrow> calls 0 cs i = 0) \<and> useKeyboardSelection 0 i0 = 0"
proof -
  have a: "0 \<le> calls n cs (useKeyboardSelection n i0) \<and>
           calls n cs (useKeyboardSelection n i0) < n"
    if "1 \<le> n" "0 \<le> i0"
    using that mount_in_range [of n i0] calls_in_range [of n "useKeyboardSelection n i0" cs]
    by simp
  have b: "0 \<le> moveUp n i \<and> moveUp n i < n \<and> 0 \<le> moveDown n i \<and> moveDown n i < n"
    if "1 \<le> n" "0 \<le> i" "i < n"
    using that by (auto simp: moveUp_def moveDown_def)
  have c: "moveDown n (n - 1) = 0 \<and> moveUp n 0 = n - 1" if "1 \<le> n"
    using that by (simp add: moveUp_def moveDown_def)
  have d: "moveUp 0 i = 0 \<and> moveDown 0 i = 0 \<and> resetSelection i = 0 \<and>
           useKeyboardSelection 0 i0 = 0"
    by (simp add: moveUp_def moveDown_def resetSelection_def useKeyboardSelection_def
        selection_effect_def)
  show ?thesis
    using a b c d calls_in_range [of n i cs] call_zero [of c i] calls_zero [of cs i] by blast
qed

theorem selection_stays_in_range_witness:
  "(1::int) \<le> 5 \<and> (0::int) \<le> 4 \<and> (4::int) < 5 \<and> (0::int) \<le> 0 \<and>
   [MoveUp, MoveDown, MoveDown, ResetSelection, MoveUp] \<noteq> [] \<and>
   calls 5 [MoveUp, MoveDown, MoveDown, ResetSelection, MoveUp] 4 = 4 \<and>
   calls 5 [MoveUp, MoveDown, MoveDown, ResetSelection, MoveUp] (useKeyboardSelection 5 0) = 4 \<and>
   moveDown 5 4 = 0 \<and> moveUp 5 0 = 4 \<and>
   calls 0 [MoveUp, MoveDown, MoveDown, ResetSelection, MoveUp] 4 = 0"
  using selection_stays_in_range [of 5 4 "[MoveUp, MoveDown, MoveDown, ResetSelection, MoveUp]"
      0 MoveUp]
  by (simp add: moveUp_def moveDown_def resetSelection_def useKeyboardSelection_def
      selection_effect_def)

section \<open>Properties of the highlighting\<close>

lemma substring_in_range:
  "a \<le> b \<Longrightarrow> b \<le> length text \<Longrightarrow> substring text a b = take (b - a) (drop a text)"
  by (simp add: substring_def Let_def min_def max_def)

lemma take_drop_snoc:
  "a \<le> i \<Longrightarrow> i < length text \<Longrightarrow>
   take (i - a) (drop a text) @ [text ! i] = take (Suc i - a) (drop a text)"
proof -
  assume h: "a \<le> i" "i < length text"
  then have "Suc i - a = Suc (i - a)" by simp
  moreover have "i - a < length (drop a text)" using h by simp
  moreover have "drop a text ! (i - a) = text ! i" using h by simp
  ultimately show ?thesis by (simp add: take_Suc_conv_app_nth)
qed

lemma take_drop_append:
  "a \<le> b \<Longrightarrow> b \<le> c \<Longrightarrow>
   take (b - a) (drop a text) @ take (c - b) (drop b text) = take (c - a) (drop a text)"
proof -
  assume h: "a \<le> b" "b \<le> c"
  have "take ((b - a) + (c - b)) (drop a text) =
        take (b - a) (drop a text) @ take (c - b) (drop (b - a) (drop a text))"
    by (rule take_add)
  moreover have "(b - a) + (c - b) = c - a" using h by simp
  moreover have "drop (b - a) (drop a text) = drop b text" using h by simp
  ultimately show ?thesis by simp
qed

lemma marks_split:
  assumes "a \<le> i" "i < c" "\<forall>j\<in>set rest. i < j"
  shows "map (\<lambda>j. j \<in> set (i # rest)) [a..<c] =
         replicate (i - a) False @ [True] @ map (\<lambda>j. j \<in> set rest) [Suc i..<c]"
proof -
  have "[a..<i + (c - i)] = [a..<i] @ [i..<i + (c - i)]"
    using assms(1) by (rule upt_add_eq_append)
  moreover have "i + (c - i) = c" using assms(2) by simp
  moreover have "[i..<c] = i # [Suc i..<c]" using assms(2) by (rule upt_conv_Cons)
  ultimately have s: "[a..<c] = [a..<i] @ [i] @ [Suc i..<c]" by simp
  have "map (\<lambda>j. j \<in> set (i # rest)) [a..<i] = map (\<lambda>j. False) [a..<i]"
    by (rule map_cong) (use assms(3) in auto)
  also have "\<dots> = replicate (length [a..<i]) False"
    by (rule map_replicate_const)
  finally have l: "map (\<lambda>j. j \<in> set (i # rest)) [a..<i] = replicate (i - a) False"
    by (simp only: length_upt)
  have r: "map (\<lambda>j. j \<in> set (i # rest)) [Suc i..<c] = map (\<lambda>j. j \<in> set rest) [Suc i..<c]"
    by auto
  have m: "map (\<lambda>j. j \<in> set (i # rest)) [i] = [True]"
    by simp
  show ?thesis by (simp only: s map_append l m r)
qed

lemma highlight_loop:
  "sorted_wrt (<) is \<Longrightarrow> \<forall>i\<in>set is. a \<le> i \<and> i < length text \<Longrightarrow> a \<le> length text \<Longrightarrow>
   fold (highlight_step text) is (els, a) = (els', b) \<Longrightarrow>
   a \<le> b \<and> b \<le> length text \<and> (\<forall>i\<in>set is. i < b) \<and>
   concat (map span_text els') = concat (map span_text els) @ take (b - a) (drop a text) \<and>
   concat (map span_marks els') = concat (map span_marks els) @ map (\<lambda>j. j \<in> set is) [a..<b]"
proof (induction "is" arbitrary: els a)
  case Nil
  then show ?case by simp
next
  case (Cons i rest)
  let ?els1 = "(if a < i then els @ [Plain (substring text a i)] else els) @ [Highlight (char_at text i)]"
  have ai: "a \<le> i" and il: "i < length text" using Cons.prems(2) by auto
  have gt: "\<forall>j\<in>set rest. i < j" using Cons.prems(1) by simp
  have hs: "highlight_step text i (els, a) = (?els1, Suc i)"
    by (simp add: highlight_step_def)
  have f: "fold (highlight_step text) rest (?els1, Suc i) = (els', b)"
    using Cons.prems(4) by (simp add: hs)
  have ih: "Suc i \<le> b \<and> b \<le> length text \<and> (\<forall>j\<in>set rest. j < b) \<and>
      concat (map span_text els') = concat (map span_text ?els1) @ take (b - Suc i) (drop (Suc i) text) \<and>
      concat (map span_marks els') = concat (map span_marks ?els1) @ map (\<lambda>j. j \<in> set rest) [Suc i..<b]"
  proof (rule Cons.IH [OF _ _ _ f])
    show "sorted_wrt (<) rest" using Cons.prems(1) by simp
    show "\<forall>j\<in>set rest. Suc i \<le> j \<and> j < length text"
      using gt Cons.prems(2) by auto
    show "Suc i \<le> length text" using il by simp
  qed
  have t1: "concat (map span_text ?els1) = concat (map span_text els) @ take (Suc i - a) (drop a text)"
    using ai il take_drop_snoc [OF ai il]
    by (auto simp: substring_in_range char_at_def)
  have m1: "concat (map span_marks ?els1) = concat (map span_marks els) @ replicate (i - a) False @ [True]"
    using ai il by (auto simp: substring_in_range char_at_def)
  have ib: "i < b" using ih by simp
  have ih_t: "concat (map span_text els') =
      concat (map span_text ?els1) @ take (b - Suc i) (drop (Suc i) text)"
    and ih_m: "concat (map span_marks els') =
      concat (map span_marks ?els1) @ map (\<lambda>j. j \<in> set rest) [Suc i..<b]"
    using ih by blast+
  have "concat (map span_text els') =
      concat (map span_text els) @
      (take (Suc i - a) (drop a text) @ take (b - Suc i) (drop (Suc i) text))"
    by (simp only: ih_t t1 append_assoc)
  also have "take (Suc i - a) (drop a text) @ take (b - Suc i) (drop (Suc i) text) =
      take (b - a) (drop a text)"
    by (rule take_drop_append) (use ai ib in simp_all)
  finally have T: "concat (map span_text els') =
      concat (map span_text els) @ take (b - a) (drop a text)" .
  have "concat (map span_marks els') =
      concat (map span_marks els) @
      (replicate (i - a) False @ [True] @ map (\<lambda>j. j \<in> set rest) [Suc i..<b])"
    by (simp only: ih_m m1 append_assoc)
  also have "replicate (i - a) False @ [True] @ map (\<lambda>j. j \<in> set rest) [Suc i..<b] =
      map (\<lambda>j. j \<in> set (i # rest)) [a..<b]"
    by (rule marks_split [symmetric, OF ai ib gt])
  finally have M: "concat (map span_marks els') =
      concat (map span_marks els) @ map (\<lambda>j. j \<in> set (i # rest)) [a..<b]" .
  show ?case
  proof (intro conjI)
    show "a \<le> b" using ai ib by simp
    show "b \<le> length text" using ih by blast
    show "\<forall>j\<in>set (i # rest). j < b" using ih ib by simp
    show "concat (map span_text els') = concat (map span_text els) @ take (b - a) (drop a text)"
      by (rule T)
    show "concat (map span_marks els') =
        concat (map span_marks els) @ map (\<lambda>j. j \<in> set (i # rest)) [a..<b]"
      by (rule M)
  qed
qed

lemma highlightMatches_valid:
  assumes v: "valid_match r"
  shows "text_content (highlightMatches (Some r)) = target r \<and>
         highlight_marks (highlightMatches (Some r)) =
           map (\<lambda>j. j \<in> set (indexes r)) [0..<length (target r)]"
proof (cases "target r = []")
  case True
  then show ?thesis by (simp add: highlightMatches_def)
next
  case nonempty: False
  show ?thesis
  proof (cases "indexes r = []")
    case True
    then show ?thesis
      using nonempty by (simp add: highlightMatches_def map_replicate_const)
  next
    case False
    let ?n = "length (target r)"
    obtain els b where f: "fold (highlight_step (target r)) (indexes r) ([], 0) = (els, b)"
      by (cases "fold (highlight_step (target r)) (indexes r) ([], 0)") auto
    have s: "sorted_wrt (<) (indexes r)"
      and r: "\<forall>i\<in>set (indexes r). 0 \<le> i \<and> i < ?n"
      using v by (simp_all add: valid_match_def list_all_iff)
    have inv: "0 \<le> b \<and> b \<le> ?n \<and> (\<forall>i\<in>set (indexes r). i < b) \<and>
        concat (map span_text els) = concat (map span_text []) @ take (b - 0) (drop 0 (target r)) \<and>
        concat (map span_marks els) =
          concat (map span_marks []) @ map (\<lambda>j. j \<in> set (indexes r)) [0..<b]"
      by (rule highlight_loop [OF s r _ f]) simp
    then have bl: "b \<le> ?n"
      and below: "\<forall>i\<in>set (indexes r). i < b"
      and t: "concat (map span_text els) = take b (target r)"
      and m: "concat (map span_marks els) = map (\<lambda>j. j \<in> set (indexes r)) [0..<b]"
      by simp_all
    have "map (\<lambda>j. j \<in> set (indexes r)) [b..<?n] = map (\<lambda>j. False) [b..<?n]"
      by (rule map_cong) (use below in auto)
    also have "\<dots> = replicate (length [b..<?n]) False"
      by (rule map_replicate_const)
    finally have rest: "map (\<lambda>j. j \<in> set (indexes r)) [b..<?n] = replicate (?n - b) False"
      by (simp only: length_upt)
    have "[0..<b + (?n - b)] = [0..<b] @ [b..<b + (?n - b)]"
      by (rule upt_add_eq_append) simp
    then have split: "[0..<?n] = [0..<b] @ [b..<?n]"
      using bl by simp
    have all: "map (\<lambda>j. j \<in> set (indexes r)) [0..<?n] =
        concat (map span_marks els) @ replicate (?n - b) False"
      by (simp only: split map_append m rest)
    have hm: "highlightMatches (Some r) =
        Fragment (if b < ?n then els @ [Plain (substring (target r) b ?n)] else els)"
      using nonempty False by (simp add: highlightMatches_def f)
    show ?thesis
    proof (cases "b < ?n")
      case True
      have "substring (target r) b ?n = drop b (target r)"
        using True by (simp add: substring_in_range)
      then show ?thesis
        using True by (simp add: hm t all)
    next
      case False
      then have "b = ?n" using bl by simp
      then show ?thesis
        using False by (simp add: hm t all)
    qed
  qed
qed

text \<open>
  C10. \<^verbatim>\<open>highlightText\<close> returns the text as it is when the query or the text is
  empty, and otherwise what \<^verbatim>\<open>highlightMatches\<close> makes of the Fuzzysort result, which
  is \<^verbatim>\<open>null\<close> when Fuzzysort finds no match. For a match, with its indexes strictly
  ascending positions of the target, the spans \<^verbatim>\<open>highlightMatches\<close> emits spell the
  target character for character, and the highlighted characters are exactly those at
  the indexes of the match.
\<close>

theorem highlighting_preserves_text:
  "(qry = [] \<or> text = [] \<longrightarrow> highlightText single text qry = Text text) \<and>
   (qry \<noteq> [] \<and> text \<noteq> [] \<longrightarrow>
      highlightText single text qry = highlightMatches (single qry text)) \<and>
   highlightMatches None = Null \<and>
   (valid_match r \<longrightarrow>
      text_content (highlightMatches (Some r)) = target r \<and>
      highlight_marks (highlightMatches (Some r)) =
        map (\<lambda>j. j \<in> set (indexes r)) [0..<length (target r)])"
  using highlightMatches_valid [of r]
  by (auto simp: highlightText_def highlightMatches_def)

theorem highlighting_preserves_text_witness:
  "valid_match \<lparr>target = ''Document'', indexes = [0, 1, 2]\<rparr> \<and>
   highlightText (\<lambda>q t. None) ''test string'' [] = Text ''test string'' \<and>
   highlightText (\<lambda>q t. Some \<lparr>target = t, indexes = [0, 1, 2]\<rparr>) ''Document'' ''doc'' =
     Fragment [Highlight ''D'', Highlight ''o'', Highlight ''c'', Plain ''ument''] \<and>
   text_content (highlightMatches (Some \<lparr>target = ''Document'', indexes = [0, 1, 2]\<rparr>)) =
     ''Document'' \<and>
   highlight_marks (highlightMatches (Some \<lparr>target = ''Document'', indexes = [0, 1, 2]\<rparr>)) =
     [True, True, True, False, False, False, False, False]"
proof -
  have v: "valid_match \<lparr>target = ''Document'', indexes = [0, 1, 2]\<rparr>"
    by (simp add: valid_match_def)
  have m: "highlightMatches (Some \<lparr>target = ''Document'', indexes = [0, 1, 2]\<rparr>) =
      Fragment [Highlight ''D'', Highlight ''o'', Highlight ''c'', Plain ''ument'']"
    by (simp add: highlightMatches_def highlight_step_def substring_def char_at_def)
  have e: "''test string'' \<noteq> []" "''doc'' \<noteq> []" "''Document'' \<noteq> []"
    by simp_all
  show ?thesis
    using v m
      highlighting_preserves_text [of "[]" "''test string''" "\<lambda>q t. None"
        "\<lparr>target = ''Document'', indexes = [0, 1, 2]\<rparr>"]
      highlighting_preserves_text [of "''doc''" "''Document''"
        "\<lambda>q t. Some \<lparr>target = t, indexes = [0, 1, 2]\<rparr>"
        "\<lparr>target = ''Document'', indexes = [0, 1, 2]\<rparr>"]
    by simp
qed

section \<open>Properties of executing a result\<close>

text \<open>
  Whatever the failure and the state, a failed execution leaves what the component
  shows as it was.
\<close>

lemma handleExecuteResult_failure_rendered:
  "rendered (handleExecuteResult (Inl err) s) = rendered s"
  by (simp add: handleExecuteResult_def executeResult_def rendered_def Let_def)

text \<open>
  C5. The selected result is \<^verbatim>\<open>a.txt\<close> and its execution fails. When the backend
  rejects with a value that is not an \<^verbatim>\<open>Error\<close> object (a string, say),
  \<^verbatim>\<open>executeResult\<close> rethrows an \<^verbatim>\<open>Error\<close> with the fixed message and the cause is
  lost. Whatever the rejection, \<^verbatim>\<open>handleExecuteResult\<close> writes the failure to the
  console and nowhere else: the component shows exactly what it showed before.
\<close>

theorem execution_failure_not_shown:
  "fst (executeResult (Inl (NonError ''File not found: C:/docs/a.txt'')) result_a []) =
     Inl ''Failed to execute result'' \<and>
   rendered (handleExecuteResult (Inl (NonError ''File not found: C:/docs/a.txt''))
       searchbar_with_file) = rendered searchbar_with_file \<and>
   console (hook (handleExecuteResult (Inl (NonError ''File not found: C:/docs/a.txt''))
       searchbar_with_file)) =
     [''Execute error: Failed to execute result'',
      ''Failed to execute result: Error: Failed to execute result''] \<and>
   rendered (handleExecuteResult (Inl (ErrorObj ''File not found'')) searchbar_with_file) =
     rendered searchbar_with_file \<and>
   console (hook (handleExecuteResult (Inl (ErrorObj ''File not found'')) searchbar_with_file)) =
     [''Execute error: File not found'', ''Failed to execute result: Error: File not found''] \<and>
   console (hook (handleExecuteResult (Inl (ErrorObj [])) searchbar_with_file)) =
     [''Execute error: '', ''Failed to execute result: Error''] \<and>
   closeScheduled (handleExecuteResult (Inr ()) searchbar_with_file) \<and>
   \<not> closeScheduled (handleExecuteResult (Inl (ErrorObj ''File not found'')) searchbar_with_file)"
  by (simp add: executeResult_def handleExecuteResult_def handleClose_def rendered_def
      errorMessage_def error_toString_def searchbar_with_file_def mounted_def result_a_def)

section \<open>Properties of the merge\<close>

lemma rank_providers_sorted:
  "sorted_wrt (\<lambda>p q. priority p \<ge> priority q) (rank_providers ps)"
proof -
  have "sorted (map (\<lambda>p. - int (priority p)) (rank_providers ps))"
    by (simp add: rank_providers_def)
  then show ?thesis
    by (simp add: sorted_map)
qed

lemma rank_results_sorted:
  "sorted_wrt (\<lambda>r r'. score r \<ge> score r') (rank_results rs)"
proof -
  have "sorted (map (\<lambda>r. - score r) (rank_results rs))"
    by (simp add: rank_results_def)
  then show ?thesis
    by (simp add: sorted_map)
qed

lemma rank_providers_stable:
  "filter (\<lambda>p. priority p = k) (rank_providers ps) = filter (\<lambda>p. priority p = k) ps"
proof -
  have "filter (\<lambda>p. - int (priority p) = - int k) (sort_key (\<lambda>p. - int (priority p)) ps) =
        filter (\<lambda>p. - int (priority p) = - int k) ps"
    by (rule sort_key_stable)
  then show ?thesis by (simp add: rank_providers_def)
qed

lemma rank_results_stable:
  "filter (\<lambda>r. score r = k) (rank_results rs) = filter (\<lambda>r. score r = k) rs"
proof -
  have "filter (\<lambda>r. - score r = - k) (sort_key (\<lambda>r. - score r) rs) =
        filter (\<lambda>r. - score r = - k) rs"
    by (rule sort_key_stable)
  then show ?thesis by (simp add: rank_results_def)
qed

lemma block_ranked:
  "sorted_wrt ranked_before (map (Pair p) (rank_results rs))"
proof -
  have "sorted_wrt (\<lambda>r r'. ranked_before (p, r) (p, r')) (rank_results rs)"
    using rank_results_sorted [of rs] by (simp add: ranked_before_def)
  then show ?thesis by (simp add: sorted_wrt_map)
qed

lemma blocks_ranked:
  "sorted_wrt (\<lambda>p q. priority p \<ge> priority q) qs \<Longrightarrow> distinct qs \<Longrightarrow>
   sorted_wrt ranked_before (concat (map (\<lambda>p. map (Pair p) (rank_results (found p))) qs))"
proof (induction qs)
  case Nil
  then show ?case by simp
next
  case (Cons q qs)
  have rest: "sorted_wrt ranked_before (concat (map (\<lambda>p. map (Pair p) (rank_results (found p))) qs))"
    using Cons by simp
  have cross: "ranked_before a b"
    if "a \<in> set (map (Pair q) (rank_results (found q)))"
      and "b \<in> set (concat (map (\<lambda>p. map (Pair p) (rank_results (found p))) qs))" for a b
  proof -
    from that(1) have fa: "fst a = q" by auto
    from that(2) obtain q' where q': "q' \<in> set qs" "fst b = q'" by auto
    have "priority q \<ge> priority q'" using Cons.prems(1) q'(1) by simp
    moreover have "q \<noteq> q'" using Cons.prems(2) q'(1) by auto
    ultimately show ?thesis using fa q'(2) by (simp add: ranked_before_def)
  qed
  show ?case
    using rest cross block_ranked [of q "found q"]
    by (simp add: sorted_wrt_append)
qed

lemma merge_tagged_ranked: "distinct ps \<Longrightarrow> sorted_wrt ranked_before (merge_tagged ps)"
proof -
  assume "distinct ps"
  then have "distinct (rank_providers ps)"
    by (simp add: rank_providers_def)
  then show ?thesis
    unfolding merge_tagged_def using rank_providers_sorted [of ps] by (intro blocks_ranked)
qed

lemma merge_results_blocks:
  "merge_results ps = concat (map (\<lambda>p. rank_results (found p)) (rank_providers ps))"
  by (simp add: merge_results_def merge_tagged_def map_concat o_def)

lemma mset_concat_image:
  "mset (concat (map g xs)) = sum_mset (image_mset (\<lambda>x. mset (g x)) (mset xs))"
  by (induction xs) simp_all

lemma mset_merge_results: "mset (merge_results ps) = mset (concat (map found ps))"
proof -
  have "mset (merge_results ps) =
        sum_mset (image_mset (\<lambda>p. mset (rank_results (found p))) (mset (rank_providers ps)))"
    by (simp only: merge_results_blocks mset_concat_image)
  also have "\<dots> = sum_mset (image_mset (\<lambda>p. mset (found p)) (mset ps))"
    by (simp add: rank_results_def rank_providers_def)
  also have "\<dots> = mset (concat (map found ps))"
    by (simp only: mset_concat_image)
  finally show ?thesis .
qed

text \<open>
  C3. The merge puts the providers in the order of descending priority, providers of
  equal priority in the order of the provider list, and the results of each provider
  in the order of descending score, results of equal score in the order the provider
  returned them. The merged list is the concatenation of these blocks and holds the
  providers' results, each exactly once. For distinct providers it is ordered by the
  composite key. In the scenario of the calculator (priority 90) and the web search
  (priority 1) the merged list is \<^verbatim>\<open>4\<close>, \<^verbatim>\<open>search the web\<close>, whichever provider is
  listed first.
\<close>

theorem merge_ordered_by_priority_then_score:
  "sorted_wrt (\<lambda>p q. priority p \<ge> priority q) (rank_providers ps) \<and>
   filter (\<lambda>p. priority p = k) (rank_providers ps) = filter (\<lambda>p. priority p = k) ps \<and>
   sorted_wrt (\<lambda>r r'. score r \<ge> score r') (rank_results rs) \<and>
   filter (\<lambda>r. score r = c) (rank_results rs) = filter (\<lambda>r. score r = c) rs \<and>
   merge_results ps = concat (map (\<lambda>p. rank_results (found p)) (rank_providers ps)) \<and>
   mset (merge_results ps) = mset (concat (map found ps)) \<and>
   (distinct ps \<longrightarrow> sorted_wrt ranked_before (merge_tagged ps)) \<and>
   map title (merge_results [calculator_provider, websearch_provider]) =
     [''4'', ''search the web''] \<and>
   map title (merge_results [websearch_provider, calculator_provider]) =
     [''4'', ''search the web'']"
proof -
  have a: "map title (merge_results [calculator_provider, websearch_provider]) =
      [''4'', ''search the web'']"
    by (simp add: merge_results_blocks rank_providers_def rank_results_def
        calculator_provider_def websearch_provider_def result_calc_def result_web_def)
  have b: "map title (merge_results [websearch_provider, calculator_provider]) =
      [''4'', ''search the web'']"
    by (simp add: merge_results_blocks rank_providers_def rank_results_def
        calculator_provider_def websearch_provider_def result_calc_def result_web_def)
  show ?thesis
    using a b rank_providers_sorted [of ps] rank_providers_stable [of k ps]
      rank_results_sorted [of rs] rank_results_stable [of c rs]
      merge_results_blocks [of ps] mset_merge_results [of ps] merge_tagged_ranked [of ps]
    by blast
qed

theorem merge_ordered_by_priority_then_score_witness:
  "distinct [websearch_provider, files_provider, calculator_provider] \<and>
   merge_results [websearch_provider, files_provider, calculator_provider] =
     [result_calc, result_a, result_file, result_web] \<and>
   sorted_wrt ranked_before (merge_tagged [websearch_provider, files_provider, calculator_provider])"
proof -
  have d: "distinct [websearch_provider, files_provider, calculator_provider]"
    by (simp add: calculator_provider_def websearch_provider_def files_provider_def)
  have m: "merge_results [websearch_provider, files_provider, calculator_provider] =
      [result_calc, result_a, result_file, result_web]"
    by (simp add: merge_results_blocks rank_providers_def rank_results_def
        calculator_provider_def websearch_provider_def files_provider_def
        result_a_def result_file_def)
  show ?thesis
    using d m merge_ordered_by_priority_then_score
      [of "[websearch_provider, files_provider, calculator_provider]"]
    by blast
qed

end
